theory Spec2Isabelle
  imports Main "HOL-Library.Word"
begin

unbundle bit_operations_syntax

section \<open>The Landlock sandboxer: a model of \<open>landlock_sandboxer.c\<close>\<close>

text \<open>
  The library's constructor \<open>apply_sandbox\<close> creates a Landlock ruleset that handles
  the EXECUTE right, walks the directories of \<open>PATH\<close>, adds an execute rule for every
  regular executable file that is not a denied shell, sets \<open>NO_NEW_PRIVS\<close> and
  restricts the process. Every fatal path ends in \<open>_exit(126)\<close>.

  C strings are modelled as \<open>string\<close>; the system calls are fields of an environment
  record that answers each call; the process is a record holding the kernel-side
  ruleset, the two process flags and the trace of calls made so far.
\<close>

subsection \<open>The denylist\<close>

definition DENIED_SHELLS :: "string list" where
  "DENIED_SHELLS =
    [''/bin/bash'',      ''/usr/bin/bash'',
     ''/bin/sh'',        ''/usr/bin/sh'',
     ''/bin/dash'',      ''/usr/bin/dash'',
     ''/bin/zsh'',       ''/usr/bin/zsh'',
     ''/bin/fish'',      ''/usr/bin/fish'',
     ''/bin/ksh'',       ''/usr/bin/ksh'',
     ''/bin/csh'',       ''/usr/bin/csh'',
     ''/bin/tcsh'',      ''/usr/bin/tcsh'',
     ''/bin/ash'',       ''/usr/bin/ash'',
     ''/bin/busybox'',   ''/usr/bin/busybox'',
     ''/bin/mksh'',      ''/usr/bin/mksh'',
     ''/bin/rbash'',     ''/usr/bin/rbash'',
     ''/bin/elvish'',    ''/usr/bin/elvish'',
     ''/bin/nu'',        ''/usr/bin/nu'',
     ''/bin/pwsh'',      ''/usr/bin/pwsh'',
     ''/bin/xonsh'',     ''/usr/bin/xonsh'']"

text \<open>
  \<open>strcmp\<close> compares byte by byte as unsigned characters; only the sign of a
  non-zero result is specified, so the model returns \<open>-1\<close>, \<open>0\<close> or \<open>1\<close>.
\<close>

fun strcmp :: "string \<Rightarrow> string \<Rightarrow> int" where
  "strcmp [] [] = 0"
| "strcmp [] (b # bs) = -1"
| "strcmp (a # as) [] = 1"
| "strcmp (a # as) (b # bs) =
     (if a = b then strcmp as bs
      else if (of_char a :: nat) < of_char b then -1 else 1)"

text \<open>The \<open>for\<close> loop of \<open>is_denied\<close> over the table, up to its \<open>NULL\<close> terminator.\<close>

fun is_denied_loop :: "string list \<Rightarrow> string \<Rightarrow> string \<Rightarrow> int" where
  "is_denied_loop [] path resolved = 0"
| "is_denied_loop (s # ss) path resolved =
     (if strcmp path s = 0 \<or> strcmp resolved s = 0 then 1
      else is_denied_loop ss path resolved)"

definition is_denied :: "string \<Rightarrow> string \<Rightarrow> int" where
  "is_denied path resolved = is_denied_loop DENIED_SHELLS path resolved"

subsection \<open>Constants of the system headers\<close>

text \<open>
  \<open>PATH_MAX\<close>, \<open>INT_MAX\<close> and the \<open>st_mode\<close> masks are the values of the Linux headers
  the file includes (\<open>limits.h\<close>, \<open>sys/stat.h\<close>); \<open>mode_t\<close> is an unsigned 32-bit integer.
\<close>

type_synonym mode_t = "32 word"

definition PATH_MAX :: nat where "PATH_MAX = 4096"
definition INT_MAX :: nat where "INT_MAX = 2147483647"

definition S_IFMT :: mode_t where "S_IFMT = 0xF000"
definition S_IFREG :: mode_t where "S_IFREG = 0x8000"
definition S_IXUSR :: mode_t where "S_IXUSR = 0x40"
definition S_IXGRP :: mode_t where "S_IXGRP = 0x8"
definition S_IXOTH :: mode_t where "S_IXOTH = 0x1"

definition S_ISREG :: "mode_t \<Rightarrow> bool" where
  "S_ISREG m \<longleftrightarrow> m AND S_IFMT = S_IFREG"

subsection \<open>The environment and the process\<close>

text \<open>
  A file behind a descriptor is identified by a number (its inode): a Landlock rule
  names the file through the descriptor \<open>open\<close> returned, not through the string.
\<close>

type_synonym file_id = nat

datatype descriptor = Ruleset_fd | Path_fd string

datatype event =
    Ev_landlock_create_ruleset
  | Ev_perror string
  | Ev_fprintf_stderr string
  | Ev_exit int
  | Ev_close descriptor
  | Ev_getenv string
  | Ev_strdup
  | Ev_free
  | Ev_opendir string
  | Ev_readdir string
  | Ev_closedir string
  | Ev_stat string
  | Ev_realpath string
  | Ev_open string
  | Ev_landlock_add_rule file_id
  | Ev_prctl_no_new_privs
  | Ev_landlock_restrict_self

text \<open>
  What the kernel, the C library and the file system answer. \<open>None\<close> is the failing
  answer of a call that returns a pointer or fills a buffer (\<open>NULL\<close>, a non-zero
  \<open>stat\<close>, a negative descriptor); the integer fields are the raw return values.
  \<open>sys_opendir\<close> gives the names \<open>readdir\<close> yields for a directory, in its order.
  The answers are those of one file-system state: they do not change during a run.
\<close>

record env =
  sys_landlock_create_ruleset :: int
  sys_getenv_PATH :: "string option"
  sys_strdup_ok :: bool
  sys_opendir :: "string \<Rightarrow> string list option"
  sys_stat :: "string \<Rightarrow> mode_t option"
  sys_realpath :: "string \<Rightarrow> string option"
  sys_open :: "string \<Rightarrow> file_id option"
  sys_landlock_add_rule :: "file_id \<Rightarrow> int"
  sys_prctl_no_new_privs :: int
  sys_landlock_restrict_self :: int

text \<open>
  The process: the files the ruleset under construction allows to execute (the kernel
  object behind \<open>ruleset_fd\<close>, a set of files), the \<open>no_new_privs\<close> flag, the enforced
  ruleset (\<open>None\<close> while unrestricted) and the calls made so far, oldest first.
\<close>

record proc =
  ruleset :: "file_id set"
  no_new_privs :: bool
  enforced :: "file_id set option"
  trace :: "event list"

datatype outcome = Returned | Exited int

definition log :: "event \<Rightarrow> proc \<Rightarrow> proc" where
  "log e s = s\<lparr>trace := trace s @ [e]\<rparr>"

definition proc_start :: "bool \<Rightarrow> proc" where
  "proc_start nnp = \<lparr>ruleset = {}, no_new_privs = nnp, enforced = None, trace = []\<rparr>"

subsection \<open>\<open>add_exec_rule\<close>\<close>

definition add_exec_rule :: "env \<Rightarrow> string \<Rightarrow> proc \<Rightarrow> int \<times> proc" where
  "add_exec_rule env path s =
     (let s1 = log (Ev_open path) s in
      case sys_open env path of
        None \<Rightarrow> (-1, s1)
      | Some f \<Rightarrow>
          (let ret = sys_landlock_add_rule env f;
               s2 = log (Ev_landlock_add_rule f) s1;
               s3 = (if ret = 0 then s2\<lparr>ruleset := insert f (ruleset s2)\<rparr> else s2)
           in (ret, log (Ev_close (Path_fd path)) s3)))"

subsection \<open>Tokenising \<open>PATH\<close> and building the candidate path\<close>

text \<open>
  \<open>strtok_r\<close> with the delimiter \<open>":"\<close>, on the text the save pointer points at: skip
  the delimiters in front (\<open>strspn\<close>); at the end of the string return \<open>NULL\<close>;
  otherwise the token runs to the next delimiter (\<open>strcspn\<close>), and the save pointer
  moves past that delimiter, or stays on the terminator.
\<close>

definition strtok_r :: "string \<Rightarrow> (string \<times> string) option" where
  "strtok_r s =
     (let s1 = dropWhile (\<lambda>c. c = CHR '':'') s in
      if s1 = [] then None
      else Some (takeWhile (\<lambda>c. c \<noteq> CHR '':'') s1,
                 drop 1 (dropWhile (\<lambda>c. c \<noteq> CHR '':'') s1)))"

text \<open>
  \<open>snprintf(fullpath, sz, "%s/%s", dir, d_name)\<close>: the return value is the length
  of the whole text (negative when it does not fit an \<open>int\<close>), the buffer holds at
  most \<open>sz - 1\<close> characters of it.
\<close>

definition snprintf_path :: "nat \<Rightarrow> string \<Rightarrow> string \<Rightarrow> int \<times> string" where
  "snprintf_path sz dir d_name =
     (let out = dir @ ''/'' @ d_name in
      (if length out > INT_MAX then -1 else int (length out), take (sz - 1) out))"

subsection \<open>The loops of \<open>apply_sandbox\<close>\<close>

text \<open>The body of the \<open>readdir\<close> loop, for one directory entry.\<close>

definition readdir_body :: "env \<Rightarrow> string \<Rightarrow> string \<Rightarrow> proc \<Rightarrow> proc" where
  "readdir_body env dir d_name s =
     (let (n, fullpath) = snprintf_path PATH_MAX dir d_name in
      if n < 0 \<or> n \<ge> int PATH_MAX then s
      else
        (let s1 = log (Ev_stat fullpath) s in
         case sys_stat env fullpath of
           None \<Rightarrow> s1
         | Some st_mode \<Rightarrow>
             if \<not> S_ISREG st_mode then s1
             else if st_mode AND (S_IXUSR OR S_IXGRP OR S_IXOTH) = 0 then s1
             else
               (let s2 = log (Ev_realpath fullpath) s1 in
                case sys_realpath env fullpath of
                  None \<Rightarrow> s2
                | Some resolved \<Rightarrow>
                    if is_denied fullpath resolved \<noteq> 0 then s2
                    else snd (add_exec_rule env fullpath s2))))"

text \<open>The \<open>readdir\<close> loop; the last call returns \<open>NULL\<close>.\<close>

fun readdir_loop :: "env \<Rightarrow> string \<Rightarrow> string list \<Rightarrow> proc \<Rightarrow> proc" where
  "readdir_loop env dir [] s = log (Ev_readdir dir) s"
| "readdir_loop env dir (d_name # rest) s =
     readdir_loop env dir rest (readdir_body env dir d_name (log (Ev_readdir dir) s))"

text \<open>The body of the loop over the tokens of \<open>PATH\<close>, for one directory.\<close>

definition path_body :: "env \<Rightarrow> string \<Rightarrow> proc \<Rightarrow> proc" where
  "path_body env dir s =
     (let s1 = log (Ev_opendir dir) s in
      case sys_opendir env dir of
        None \<Rightarrow> s1
      | Some entries \<Rightarrow> log (Ev_closedir dir) (readdir_loop env dir entries s1))"

text \<open>The loop over the tokens; \<open>save\<close> is the text at the save pointer.\<close>

function path_loop :: "env \<Rightarrow> string \<Rightarrow> proc \<Rightarrow> proc" where
  "path_loop env save s =
     (case strtok_r save of
        None \<Rightarrow> s
      | Some (dir, save') \<Rightarrow> path_loop env save' (path_body env dir s))"
  by pat_completeness auto
termination
proof (relation "measure (\<lambda>(env, save, s). length save)")
  fix env :: env and save :: string and s :: proc and x2 dir save'
  assume tok: "strtok_r save = Some x2" and x2: "(dir, save') = x2"
  define s1 where "s1 = dropWhile (\<lambda>c. c = CHR '':'') save"
  define s2 where "s2 = dropWhile (\<lambda>c. c \<noteq> CHR '':'') s1"
  from tok x2 have tok': "strtok_r save = Some (dir, save')"
    by simp
  have ne: "s1 \<noteq> []"
    using tok' unfolding strtok_r_def Let_def s1_def by (simp split: if_splits)
  have eq: "save' = drop 1 s2"
    using tok' unfolding strtok_r_def Let_def s1_def s2_def by (simp split: if_splits)
  have l1: "length s1 \<le> length save"
    unfolding s1_def by (rule length_dropWhile_le)
  have l2: "length s2 \<le> length s1"
    unfolding s2_def by (rule length_dropWhile_le)
  have l3: "length save' = length s2 - 1"
    unfolding eq by simp
  have l4: "0 < length s1"
    using ne by simp
  have "length save' < length save"
    using l1 l2 l3 l4 by arith
  then show "((env, save', path_body env dir s), (env, save, s))
      \<in> measure (\<lambda>(env, save, s). length save)" by simp
qed simp

declare path_loop.simps [simp del]

subsection \<open>\<open>apply_sandbox\<close>\<close>

definition apply_sandbox :: "env \<Rightarrow> proc \<Rightarrow> outcome \<times> proc" where
  "apply_sandbox env s0 =
     (let ruleset_fd = sys_landlock_create_ruleset env;
          s1 = log Ev_landlock_create_ruleset s0
      in
      if ruleset_fd < 0 then
        (Exited 126,
         log (Ev_exit 126) (log (Ev_perror ''landlock_sandboxer: create_ruleset'') s1))
      else
        (let s2 = log (Ev_getenv ''PATH'') (s1\<lparr>ruleset := {}\<rparr>) in
         if sys_getenv_PATH env = None \<or> sys_getenv_PATH env = Some [] then
           (Exited 126,
            log (Ev_exit 126)
              (log (Ev_fprintf_stderr ''landlock_sandboxer: PATH is empty\<newline>'')
                (log (Ev_close Ruleset_fd) s2)))
         else
           (let path_env = the (sys_getenv_PATH env);
                s3 = log Ev_strdup s2
            in
            if \<not> sys_strdup_ok env then
              (Exited 126, log (Ev_exit 126) (log (Ev_close Ruleset_fd) s3))
            else
              (let s4 = log Ev_free (path_loop env path_env s3);
                   s5 = log Ev_prctl_no_new_privs s4
               in
               if sys_prctl_no_new_privs env \<noteq> 0 then
                 (Exited 126,
                  log (Ev_exit 126)
                    (log (Ev_close Ruleset_fd)
                      (log (Ev_perror ''landlock_sandboxer: prctl(NO_NEW_PRIVS)'') s5)))
               else
                 (let s6 = log Ev_landlock_restrict_self (s5\<lparr>no_new_privs := True\<rparr>) in
                  if sys_landlock_restrict_self env \<noteq> 0 then
                    (Exited 126,
                     log (Ev_exit 126)
                       (log (Ev_close Ruleset_fd)
                         (log (Ev_perror ''landlock_sandboxer: restrict_self'') s6)))
                  else
                    (Returned,
                     log (Ev_close Ruleset_fd) (s6\<lparr>enforced := Some (ruleset s6)\<rparr>)))))))"

section \<open>Notions used to state the properties\<close>

subsection \<open>The directories of \<open>PATH\<close>\<close>

text \<open>
  The components of a colon-separated value, empty ones included, and the search
  directories: the components that are not empty.
\<close>

fun split_colon :: "string \<Rightarrow> string list" where
  "split_colon [] = [[]]"
| "split_colon (c # cs) =
     (if c = CHR '':'' then [] # split_colon cs
      else (case split_colon cs of [] \<Rightarrow> [[c]] | t # ts \<Rightarrow> (c # t) # ts))"

definition path_dirs :: "string \<Rightarrow> string list" where
  "path_dirs p = filter (\<lambda>t. t \<noteq> []) (split_colon p)"

subsection \<open>Candidates\<close>

text \<open>
  A path names a regular file with an execute bit for owner, group or other; a path
  resolves and neither it nor its resolution is denied; a path is a direct entry
  (directory, separator, name) of one of the directories.
\<close>

definition exec_regular :: "env \<Rightarrow> string \<Rightarrow> bool" where
  "exec_regular env p \<longleftrightarrow>
     (case sys_stat env p of
        None \<Rightarrow> False
      | Some m \<Rightarrow> S_ISREG m \<and> m AND (S_IXUSR OR S_IXGRP OR S_IXOTH) \<noteq> 0)"

definition resolves_undenied :: "env \<Rightarrow> string \<Rightarrow> bool" where
  "resolves_undenied env p \<longleftrightarrow>
     (case sys_realpath env p of None \<Rightarrow> False | Some r \<Rightarrow> is_denied p r = 0)"

definition dir_entry :: "env \<Rightarrow> string list \<Rightarrow> string \<Rightarrow> bool" where
  "dir_entry env dirs p \<longleftrightarrow>
     (\<exists>dir \<in> set dirs.
        case sys_opendir env dir of
          None \<Rightarrow> False
        | Some names \<Rightarrow> \<exists>d_name \<in> set names. p = dir @ ''/'' @ d_name)"

subsection \<open>The calls a candidate, a directory and the whole walk may make\<close>

fun entry_event :: "env \<Rightarrow> string \<Rightarrow> event \<Rightarrow> bool" where
  "entry_event env p (Ev_stat q) = (q = p)"
| "entry_event env p (Ev_realpath q) = (q = p \<and> exec_regular env p)"
| "entry_event env p (Ev_open q) = (q = p \<and> exec_regular env p \<and> resolves_undenied env p)"
| "entry_event env p (Ev_landlock_add_rule f) =
     (exec_regular env p \<and> resolves_undenied env p \<and> sys_open env p = Some f)"
| "entry_event env p (Ev_close d) =
     (d = Path_fd p \<and> exec_regular env p \<and> resolves_undenied env p)"
| "entry_event env p _ = False"

definition dir_event :: "env \<Rightarrow> string \<Rightarrow> event \<Rightarrow> bool" where
  "dir_event env dir e \<longleftrightarrow>
     e = Ev_opendir dir \<or>
     (case sys_opendir env dir of
        None \<Rightarrow> False
      | Some names \<Rightarrow>
          e = Ev_readdir dir \<or> e = Ev_closedir dir \<or>
          (\<exists>d_name \<in> set names.
             length (dir @ ''/'' @ d_name) < PATH_MAX \<and>
             entry_event env (dir @ ''/'' @ d_name) e))"

definition loop_event :: "env \<Rightarrow> string list \<Rightarrow> event \<Rightarrow> bool" where
  "loop_event env dirs e \<longleftrightarrow> (\<exists>dir \<in> set dirs. dir_event env dir e)"

text \<open>
  \<open>steps P s s'\<close>: the process went from \<open>s\<close> to \<open>s'\<close> by calls that all satisfy \<open>P\<close>,
  without touching \<open>no_new_privs\<close> or the enforced ruleset.
\<close>

definition steps :: "(event \<Rightarrow> bool) \<Rightarrow> proc \<Rightarrow> proc \<Rightarrow> bool" where
  "steps P s s' \<longleftrightarrow>
     (\<exists>es. trace s' = trace s @ es \<and> list_all P es) \<and>
     no_new_privs s' = no_new_privs s \<and> enforced s' = enforced s"

text \<open>
  The calls that belong to the walk over \<open>PATH\<close>: on a directory, on a candidate
  file, and the rule addition with its descriptor. All other calls are not.
\<close>

fun walk_call :: "event \<Rightarrow> bool" where
  "walk_call (Ev_opendir d) = True"
| "walk_call (Ev_readdir d) = True"
| "walk_call (Ev_closedir d) = True"
| "walk_call (Ev_stat p) = True"
| "walk_call (Ev_realpath p) = True"
| "walk_call (Ev_open p) = True"
| "walk_call (Ev_landlock_add_rule f) = True"
| "walk_call (Ev_close (Path_fd p)) = True"
| "walk_call e = False"

text \<open>
  The calls of the activation step, by the answers of \<open>prctl\<close> and
  \<open>landlock_restrict_self\<close>.
\<close>

definition activation :: "env \<Rightarrow> event list" where
  "activation env =
     (if sys_prctl_no_new_privs env \<noteq> 0 then
        [Ev_prctl_no_new_privs, Ev_perror ''landlock_sandboxer: prctl(NO_NEW_PRIVS)'',
         Ev_close Ruleset_fd, Ev_exit 126]
      else if sys_landlock_restrict_self env \<noteq> 0 then
        [Ev_prctl_no_new_privs, Ev_landlock_restrict_self,
         Ev_perror ''landlock_sandboxer: restrict_self'', Ev_close Ruleset_fd, Ev_exit 126]
      else [Ev_prctl_no_new_privs, Ev_landlock_restrict_self, Ev_close Ruleset_fd])"

text \<open>The directories \<open>opendir\<close> was called on, in order.\<close>

fun opendir_calls :: "event list \<Rightarrow> string list" where
  "opendir_calls [] = []"
| "opendir_calls (Ev_opendir d # es) = d # opendir_calls es"
| "opendir_calls (e # es) = opendir_calls es"

subsection \<open>The files that end up in the ruleset\<close>

text \<open>
  The file behind a candidate path that passes every check, can be opened and whose
  rule the kernel accepts; the files of a directory; the files of a list of directories.
\<close>

definition entry_files :: "env \<Rightarrow> string \<Rightarrow> file_id set" where
  "entry_files env p =
     (if length p < PATH_MAX \<and> exec_regular env p \<and> resolves_undenied env p then
        (case sys_open env p of
           None \<Rightarrow> {}
         | Some f \<Rightarrow> if sys_landlock_add_rule env f = 0 then {f} else {})
      else {})"

definition dir_files :: "env \<Rightarrow> string \<Rightarrow> file_id set" where
  "dir_files env dir =
     (case sys_opendir env dir of
        None \<Rightarrow> {}
      | Some names \<Rightarrow> (\<Union>d_name \<in> set names. entry_files env (dir @ ''/'' @ d_name)))"

definition allowed_files :: "env \<Rightarrow> string list \<Rightarrow> file_id set" where
  "allowed_files env dirs = (\<Union>dir \<in> set dirs. dir_files env dir)"

subsection \<open>A small file system\<close>

text \<open>
  \<open>/bin\<close> holds \<open>ls\<close>, \<open>bash\<close> and a non-executable \<open>readme\<close>; \<open>/tmp/bin\<close> holds
  \<open>myshell\<close>, a link to \<open>/bin/bash\<close>, \<open>ls\<close>, a link to \<open>/bin/ls\<close>, and \<open>gone\<close>, which
  has vanished; \<open>/nodir\<close> does not exist. \<open>PATH\<close> has a leading and a doubled colon.
\<close>

definition env0 :: env where
  "env0 = \<lparr>
     sys_landlock_create_ruleset = 3,
     sys_getenv_PATH = Some '':/bin::/nodir:/tmp/bin'',
     sys_strdup_ok = True,
     sys_opendir = [''/bin'' \<mapsto> [''.'', ''ls'', ''bash'', ''readme''],
                    ''/tmp/bin'' \<mapsto> [''myshell'', ''ls'', ''gone'']],
     sys_stat = [''/bin/.'' \<mapsto> 0x41ED, ''/bin/ls'' \<mapsto> 0x81ED, ''/bin/bash'' \<mapsto> 0x81ED,
                 ''/bin/readme'' \<mapsto> 0x81A4, ''/tmp/bin/myshell'' \<mapsto> 0x81ED,
                 ''/tmp/bin/ls'' \<mapsto> 0x81ED],
     sys_realpath = [''/bin/ls'' \<mapsto> ''/bin/ls'', ''/bin/bash'' \<mapsto> ''/bin/bash'',
                     ''/tmp/bin/myshell'' \<mapsto> ''/bin/bash'', ''/tmp/bin/ls'' \<mapsto> ''/bin/ls''],
     sys_open = [''/bin/ls'' \<mapsto> 11, ''/tmp/bin/ls'' \<mapsto> 11],
     sys_landlock_add_rule = (\<lambda>f. 0),
     sys_prctl_no_new_privs = 0,
     sys_landlock_restrict_self = 0 \<rparr>"

section \<open>Lemmas\<close>

lemma strcmp_eq_0: "strcmp a b = 0 \<longleftrightarrow> a = b"
  by (induction a b rule: strcmp.induct) auto

lemma is_denied_loop_eq:
  "is_denied_loop tbl path resolved = (if path \<in> set tbl \<or> resolved \<in> set tbl then 1 else 0)"
  by (induction tbl) (auto simp: strcmp_eq_0)

lemma split_colon_not_Nil: "split_colon cs \<noteq> []"
  by (induction cs) (simp_all split: list.split)

lemma split_colon_sep: "split_colon (CHR '':'' # cs) = [] # split_colon cs"
  by simp

lemma split_colon_Cons:
  "c \<noteq> CHR '':'' \<Longrightarrow> split_colon (c # cs) = (c # hd (split_colon cs)) # tl (split_colon cs)"
  using split_colon_not_Nil [of cs] by (simp split: list.split)

lemma hd_split_colon: "hd (split_colon cs) = takeWhile (\<lambda>c. c \<noteq> CHR '':'') cs"
  by (induction cs) (simp_all add: split_colon_sep split_colon_Cons del: split_colon.simps(2))

lemma tl_split_colon:
  "tl (split_colon cs) =
     (case dropWhile (\<lambda>c. c \<noteq> CHR '':'') cs of [] \<Rightarrow> [] | c # r \<Rightarrow> split_colon r)"
  by (induction cs) (simp_all add: split_colon_sep split_colon_Cons del: split_colon.simps(2))

lemma path_dirs_skip_colons: "path_dirs (dropWhile (\<lambda>c. c = CHR '':'') s) = path_dirs s"
  by (induction s) (simp_all add: path_dirs_def)

lemma path_dirs_token:
  assumes "s \<noteq> []" and "hd s \<noteq> CHR '':''"
  shows "path_dirs s =
           takeWhile (\<lambda>c. c \<noteq> CHR '':'') s # path_dirs (drop 1 (dropWhile (\<lambda>c. c \<noteq> CHR '':'') s))"
proof -
  from assms obtain c cs where s: "s = c # cs" and c: "c \<noteq> CHR '':''"
    by (cases s) auto
  have "path_dirs s = (c # hd (split_colon cs)) # filter (\<lambda>t. t \<noteq> []) (tl (split_colon cs))"
    using c by (simp add: s path_dirs_def split_colon_Cons del: split_colon.simps(2))
  also have "hd (split_colon cs) = takeWhile (\<lambda>c. c \<noteq> CHR '':'') cs"
    by (rule hd_split_colon)
  also have "filter (\<lambda>t. t \<noteq> []) (tl (split_colon cs)) =
      path_dirs (drop 1 (dropWhile (\<lambda>c. c \<noteq> CHR '':'') cs))"
    by (simp add: tl_split_colon path_dirs_def del: dropWhile_eq_Nil_conv split: list.split)
  finally show ?thesis using c by (simp add: s)
qed

lemma strtok_r_None:
  assumes "strtok_r s = None"
  shows "path_dirs s = []"
proof -
  have e: "dropWhile (\<lambda>c. c = CHR '':'') s = []"
    using assms unfolding strtok_r_def Let_def by (simp split: if_splits)
  have "path_dirs s = path_dirs (dropWhile (\<lambda>c. c = CHR '':'') s)"
    by (simp only: path_dirs_skip_colons)
  also have "\<dots> = path_dirs []"
    by (simp only: e)
  also have "\<dots> = []"
    by (simp add: path_dirs_def)
  finally show ?thesis .
qed

lemma strtok_r_Some:
  assumes "strtok_r s = Some (dir, save)"
  shows "path_dirs s = dir # path_dirs save" and "dir \<noteq> []" and "CHR '':'' \<notin> set dir"
proof -
  define s1 where "s1 = dropWhile (\<lambda>c. c = CHR '':'') s"
  have ne: "s1 \<noteq> []"
    using assms unfolding strtok_r_def Let_def s1_def by (simp split: if_splits)
  have dir: "dir = takeWhile (\<lambda>c. c \<noteq> CHR '':'') s1"
    using assms unfolding strtok_r_def Let_def s1_def by (simp split: if_splits)
  have save: "save = drop 1 (dropWhile (\<lambda>c. c \<noteq> CHR '':'') s1)"
    using assms unfolding strtok_r_def Let_def s1_def by (simp split: if_splits)
  have hd: "hd s1 \<noteq> CHR '':''"
    using ne unfolding s1_def by (metis (mono_tags, lifting) hd_dropWhile)
  have "path_dirs s1 = dir # path_dirs save"
    unfolding dir save by (rule path_dirs_token [OF ne hd])
  then show "path_dirs s = dir # path_dirs save"
    unfolding s1_def by (simp only: path_dirs_skip_colons)
  show "dir \<noteq> []"
    using ne hd unfolding dir by (cases s1) simp_all
  show "CHR '':'' \<notin> set dir"
    unfolding dir by (auto dest: set_takeWhileD)
qed

lemma path_loop_fold: "path_loop env save s = fold (path_body env) (path_dirs save) s"
proof (induction env save s rule: path_loop.induct)
  case (1 env save s)
  show ?case
  proof (cases "strtok_r save")
    case None
    then show ?thesis
      by (simp add: path_loop.simps [of env save s] strtok_r_None)
  next
    case (Some tok)
    obtain dir save' where tok: "tok = (dir, save')" by (cases tok)
    have "path_loop env save s = path_loop env save' (path_body env dir s)"
      by (simp add: path_loop.simps [of env save s] Some tok)
    also have "\<dots> = fold (path_body env) (path_dirs save') (path_body env dir s)"
      using Some tok by (intro "1.IH") simp_all
    also have "\<dots> = fold (path_body env) (path_dirs save) s"
      using strtok_r_Some(1) [of save dir save'] Some tok by simp
    finally show ?thesis .
  qed
qed

lemma trace_log [simp]: "trace (log e s) = trace s @ [e]"
  by (simp add: log_def)

lemma ruleset_log [simp]: "ruleset (log e s) = ruleset s"
  by (simp add: log_def)

lemma no_new_privs_log [simp]: "no_new_privs (log e s) = no_new_privs s"
  by (simp add: log_def)

lemma enforced_log [simp]: "enforced (log e s) = enforced s"
  by (simp add: log_def)

lemma steps_refl: "steps P s s"
  by (simp add: steps_def)

lemma steps_trans: "steps P s s' \<Longrightarrow> steps P s' s'' \<Longrightarrow> steps P s s''"
  by (auto simp: steps_def)

lemma steps_log: "P e \<Longrightarrow> steps P s (log e s)"
  by (simp add: steps_def)

lemma steps_mono: "steps P s s' \<Longrightarrow> (\<And>e. P e \<Longrightarrow> Q e) \<Longrightarrow> steps Q s s'"
  unfolding steps_def list_all_iff by blast

lemma steps_ruleset_update: "steps P s s' \<Longrightarrow> steps P s (s'\<lparr>ruleset := r\<rparr>)"
  by (simp add: steps_def)

lemma snprintf_path_fits:
  "length (dir @ ''/'' @ d_name) < PATH_MAX \<Longrightarrow>
   snprintf_path PATH_MAX dir d_name =
     (int (length (dir @ ''/'' @ d_name)), dir @ ''/'' @ d_name)"
  by (simp add: snprintf_path_def PATH_MAX_def INT_MAX_def Let_def)

lemma snprintf_path_too_long:
  "PATH_MAX \<le> length (dir @ ''/'' @ d_name) \<Longrightarrow>
   fst (snprintf_path PATH_MAX dir d_name) < 0 \<or>
   int PATH_MAX \<le> fst (snprintf_path PATH_MAX dir d_name)"
  by (simp add: snprintf_path_def PATH_MAX_def INT_MAX_def Let_def)

lemma readdir_body_too_long:
  "PATH_MAX \<le> length (dir @ ''/'' @ d_name) \<Longrightarrow> readdir_body env dir d_name s = s"
  using snprintf_path_too_long [of dir d_name]
  by (simp add: readdir_body_def split_def Let_def)

lemma readdir_body_fits:
  assumes "length (dir @ ''/'' @ d_name) < PATH_MAX" and "p = dir @ ''/'' @ d_name"
  shows "readdir_body env dir d_name s =
     (case sys_stat env p of
        None \<Rightarrow> log (Ev_stat p) s
      | Some st_mode \<Rightarrow>
          if \<not> S_ISREG st_mode then log (Ev_stat p) s
          else if st_mode AND (S_IXUSR OR S_IXGRP OR S_IXOTH) = 0 then log (Ev_stat p) s
          else
            (case sys_realpath env p of
               None \<Rightarrow> log (Ev_realpath p) (log (Ev_stat p) s)
             | Some resolved \<Rightarrow>
                 if is_denied p resolved \<noteq> 0 then log (Ev_realpath p) (log (Ev_stat p) s)
                 else snd (add_exec_rule env p (log (Ev_realpath p) (log (Ev_stat p) s)))))"
  using assms(1) unfolding assms(2) readdir_body_def snprintf_path_fits [OF assms(1)]
  by (simp add: Let_def split: option.split)

lemma add_exec_rule_steps:
  assumes "P (Ev_open p)"
    and "\<And>f. sys_open env p = Some f \<Longrightarrow> P (Ev_landlock_add_rule f) \<and> P (Ev_close (Path_fd p))"
  shows "steps P s (snd (add_exec_rule env p s))"
  using assms by (auto simp: add_exec_rule_def steps_def Let_def log_def split: option.splits)

lemma readdir_body_steps:
  "steps (\<lambda>e. length (dir @ ''/'' @ d_name) < PATH_MAX \<and> entry_event env (dir @ ''/'' @ d_name) e)
     s (readdir_body env dir d_name s)"
proof (cases "length (dir @ ''/'' @ d_name) < PATH_MAX")
  case False
  then show ?thesis by (simp add: readdir_body_too_long steps_refl)
next
  case True
  define p where "p = dir @ ''/'' @ d_name"
  have fits: "length p < PATH_MAX" using True by (simp add: p_def)
  let ?P = "\<lambda>e. length p < PATH_MAX \<and> entry_event env p e"
  have st: "steps ?P s (log (Ev_stat p) s)"
    using fits by (intro steps_log) simp
  have rp: "exec_regular env p \<Longrightarrow> steps ?P s (log (Ev_realpath p) (log (Ev_stat p) s))"
    using fits by (intro steps_trans [OF st] steps_log) simp
  have ad: "exec_regular env p \<Longrightarrow> resolves_undenied env p \<Longrightarrow>
      steps ?P s (snd (add_exec_rule env p (log (Ev_realpath p) (log (Ev_stat p) s))))"
    using fits by (intro steps_trans [OF rp] add_exec_rule_steps) simp_all
  have "steps ?P s (readdir_body env dir d_name s)"
    unfolding readdir_body_fits [OF True p_def]
    using st rp ad
    by (auto simp: exec_regular_def resolves_undenied_def split: option.splits)
  then show ?thesis by (simp add: p_def)
qed

lemma readdir_loop_steps:
  "steps (\<lambda>e. e = Ev_readdir dir \<or>
               (\<exists>d_name \<in> set names.
                  length (dir @ ''/'' @ d_name) < PATH_MAX \<and>
                  entry_event env (dir @ ''/'' @ d_name) e))
     s (readdir_loop env dir names s)"
proof (induction names arbitrary: s)
  case Nil
  show ?case by (simp add: steps_log)
next
  case (Cons d_name rest)
  let ?P = "\<lambda>e. e = Ev_readdir dir \<or>
               (\<exists>n \<in> set (d_name # rest).
                  length (dir @ ''/'' @ n) < PATH_MAX \<and> entry_event env (dir @ ''/'' @ n) e)"
  have a: "steps ?P s (log (Ev_readdir dir) s)"
    by (rule steps_log) simp
  have b: "steps ?P (log (Ev_readdir dir) s) (readdir_body env dir d_name (log (Ev_readdir dir) s))"
    by (rule steps_mono [OF readdir_body_steps]) simp
  have c: "steps ?P (readdir_body env dir d_name (log (Ev_readdir dir) s))
             (readdir_loop env dir rest (readdir_body env dir d_name (log (Ev_readdir dir) s)))"
    by (rule steps_mono [OF Cons.IH]) auto
  show ?case
    using steps_trans [OF a steps_trans [OF b c]] by simp
qed

lemma path_body_steps: "steps (dir_event env dir) s (path_body env dir s)"
proof (cases "sys_opendir env dir")
  case None
  then show ?thesis
    by (simp add: path_body_def Let_def steps_log dir_event_def)
next
  case (Some names)
  have a: "steps (dir_event env dir) s (log (Ev_opendir dir) s)"
    by (rule steps_log) (simp add: dir_event_def)
  have b: "steps (dir_event env dir) (log (Ev_opendir dir) s)
             (readdir_loop env dir names (log (Ev_opendir dir) s))"
    by (rule steps_mono [OF readdir_loop_steps]) (auto simp: dir_event_def Some)
  have c: "steps (dir_event env dir) (readdir_loop env dir names (log (Ev_opendir dir) s))
             (log (Ev_closedir dir) (readdir_loop env dir names (log (Ev_opendir dir) s)))"
    by (rule steps_log) (simp add: dir_event_def Some)
  show ?thesis
    using steps_trans [OF a steps_trans [OF b c]] by (simp add: path_body_def Let_def Some)
qed

lemma fold_path_body_steps:
  "set ds \<subseteq> set dirs \<Longrightarrow> steps (loop_event env dirs) s (fold (path_body env) ds s)"
proof (induction ds arbitrary: s)
  case Nil
  show ?case by (simp add: steps_refl)
next
  case (Cons d ds)
  have "steps (loop_event env dirs) s (path_body env d s)"
    using Cons.prems by (intro steps_mono [OF path_body_steps]) (auto simp: loop_event_def)
  moreover have "steps (loop_event env dirs) (path_body env d s)
      (fold (path_body env) ds (path_body env d s))"
    using Cons.prems by (intro Cons.IH) simp
  ultimately show ?case
    using steps_trans by fastforce
qed

lemma path_loop_steps: "steps (loop_event env (path_dirs p)) s (path_loop env p s)"
  unfolding path_loop_fold by (rule fold_path_body_steps) simp

lemma ruleset_add_exec_rule:
  "ruleset (snd (add_exec_rule env p s)) =
     ruleset s \<union>
     (case sys_open env p of
        None \<Rightarrow> {}
      | Some f \<Rightarrow> if sys_landlock_add_rule env f = 0 then {f} else {})"
  by (simp add: add_exec_rule_def Let_def split: option.split)

lemma ruleset_readdir_body:
  "ruleset (readdir_body env dir d_name s) = ruleset s \<union> entry_files env (dir @ ''/'' @ d_name)"
proof (cases "length (dir @ ''/'' @ d_name) < PATH_MAX")
  case False
  then show ?thesis by (simp add: readdir_body_too_long entry_files_def)
next
  case True
  show ?thesis
    unfolding readdir_body_fits [OF True refl] entry_files_def
    using True
    by (simp add: ruleset_add_exec_rule exec_regular_def resolves_undenied_def
        split: option.split)
qed

lemma ruleset_readdir_loop:
  "ruleset (readdir_loop env dir names s) =
     ruleset s \<union> (\<Union>d_name \<in> set names. entry_files env (dir @ ''/'' @ d_name))"
  by (induction names arbitrary: s) (auto simp: ruleset_readdir_body)

lemma ruleset_path_body: "ruleset (path_body env dir s) = ruleset s \<union> dir_files env dir"
  by (simp add: path_body_def dir_files_def Let_def ruleset_readdir_loop split: option.split)

lemma ruleset_fold_path_body:
  "ruleset (fold (path_body env) ds s) = ruleset s \<union> allowed_files env ds"
  by (induction ds arbitrary: s) (auto simp: ruleset_path_body allowed_files_def)

lemma ruleset_path_loop:
  "ruleset (path_loop env p s) = ruleset s \<union> allowed_files env (path_dirs p)"
  unfolding path_loop_fold by (rule ruleset_fold_path_body)

lemma opendir_calls_append: "opendir_calls (es @ fs) = opendir_calls es @ opendir_calls fs"
  by (induction es rule: opendir_calls.induct) simp_all

lemma opendir_calls_none:
  "list_all P es \<Longrightarrow> (\<And>d. \<not> P (Ev_opendir d)) \<Longrightarrow> opendir_calls es = []"
  by (induction es rule: opendir_calls.induct) auto

lemma opendir_calls_readdir_loop:
  "opendir_calls (trace (readdir_loop env dir names s)) = opendir_calls (trace s)"
proof -
  from readdir_loop_steps [of dir names env s]
  obtain es where es: "trace (readdir_loop env dir names s) = trace s @ es"
    and all: "list_all (\<lambda>e. e = Ev_readdir dir \<or>
               (\<exists>d_name \<in> set names.
                  length (dir @ ''/'' @ d_name) < PATH_MAX \<and>
                  entry_event env (dir @ ''/'' @ d_name) e)) es"
    unfolding steps_def by blast
  have "opendir_calls es = []"
    by (rule opendir_calls_none [OF all]) auto
  then show ?thesis by (simp add: es opendir_calls_append)
qed

lemma opendir_calls_path_body:
  "opendir_calls (trace (path_body env dir s)) = opendir_calls (trace s) @ [dir]"
  by (simp add: path_body_def Let_def opendir_calls_readdir_loop opendir_calls_append
      split: option.split)

lemma opendir_calls_fold_path_body:
  "opendir_calls (trace (fold (path_body env) ds s)) = opendir_calls (trace s) @ ds"
  by (induction ds arbitrary: s) (simp_all add: opendir_calls_path_body)

lemma opendir_calls_path_loop:
  "opendir_calls (trace (path_loop env p s)) = opendir_calls (trace s) @ path_dirs p"
  unfolding path_loop_fold by (rule opendir_calls_fold_path_body)

lemma loop_event_walk_call: "loop_event env dirs e \<Longrightarrow> walk_call e"
  by (cases e rule: walk_call.cases)
     (auto simp: loop_event_def dir_event_def split: option.splits)

lemma apply_sandbox_create_fails:
  "sys_landlock_create_ruleset env < 0 \<Longrightarrow>
   apply_sandbox env s =
     (Exited 126,
      s\<lparr>trace := trace s @ [Ev_landlock_create_ruleset,
                             Ev_perror ''landlock_sandboxer: create_ruleset'', Ev_exit 126]\<rparr>)"
  by (simp add: apply_sandbox_def Let_def log_def)

lemma apply_sandbox_no_path:
  "0 \<le> sys_landlock_create_ruleset env \<Longrightarrow>
   sys_getenv_PATH env = None \<or> sys_getenv_PATH env = Some [] \<Longrightarrow>
   apply_sandbox env s =
     (Exited 126,
      s\<lparr>ruleset := {},
        trace := trace s @ [Ev_landlock_create_ruleset, Ev_getenv ''PATH'', Ev_close Ruleset_fd,
                             Ev_fprintf_stderr ''landlock_sandboxer: PATH is empty\<newline>'',
                             Ev_exit 126]\<rparr>)"
  by (auto simp: apply_sandbox_def Let_def log_def)

lemma apply_sandbox_strdup_fails:
  "0 \<le> sys_landlock_create_ruleset env \<Longrightarrow> sys_getenv_PATH env = Some p \<Longrightarrow> p \<noteq> [] \<Longrightarrow>
   \<not> sys_strdup_ok env \<Longrightarrow>
   apply_sandbox env s =
     (Exited 126,
      s\<lparr>ruleset := {},
        trace := trace s @ [Ev_landlock_create_ruleset, Ev_getenv ''PATH'', Ev_strdup,
                             Ev_close Ruleset_fd, Ev_exit 126]\<rparr>)"
  by (simp add: apply_sandbox_def Let_def log_def)

text \<open>The run that gets past the three early exits.\<close>

lemma apply_sandbox_walk:
  assumes "0 \<le> sys_landlock_create_ruleset env" and "sys_getenv_PATH env = Some p"
    and "p \<noteq> []" and "sys_strdup_ok env"
  shows "fst (apply_sandbox env s) =
           (if sys_prctl_no_new_privs env = 0 \<and> sys_landlock_restrict_self env = 0
            then Returned else Exited 126)"
    and "ruleset (snd (apply_sandbox env s)) = allowed_files env (path_dirs p)"
    and "no_new_privs (snd (apply_sandbox env s)) =
           (sys_prctl_no_new_privs env = 0 \<or> no_new_privs s)"
    and "enforced (snd (apply_sandbox env s)) =
           (if sys_prctl_no_new_privs env = 0 \<and> sys_landlock_restrict_self env = 0
            then Some (allowed_files env (path_dirs p)) else enforced s)"
    and "\<exists>es. list_all (loop_event env (path_dirs p)) es \<and>
           trace (snd (apply_sandbox env s)) =
             trace s @ [Ev_landlock_create_ruleset, Ev_getenv ''PATH'', Ev_strdup] @ es @
             [Ev_free] @ activation env"
    and "opendir_calls (trace (snd (apply_sandbox env s))) = opendir_calls (trace s) @ path_dirs p"
proof -
  define s3 where
    "s3 = log Ev_strdup (log (Ev_getenv ''PATH'') ((log Ev_landlock_create_ruleset s)\<lparr>ruleset := {}\<rparr>))"
  define s4 where "s4 = path_loop env p s3"
  have st: "steps (loop_event env (path_dirs p)) s3 s4"
    unfolding s4_def by (rule path_loop_steps)
  have rs: "ruleset s4 = allowed_files env (path_dirs p)"
    unfolding s4_def by (simp add: ruleset_path_loop s3_def)
  have nnp: "no_new_privs s4 = no_new_privs s" and enf: "enforced s4 = enforced s"
    using st by (simp_all add: steps_def s3_def)
  from st obtain es where es: "trace s4 = trace s3 @ es"
    and all: "list_all (loop_event env (path_dirs p)) es"
    unfolding steps_def by blast
  have tr3: "trace s3 = trace s @ [Ev_landlock_create_ruleset, Ev_getenv ''PATH'', Ev_strdup]"
    by (simp add: s3_def)
  have unf: "apply_sandbox env s =
      (if sys_prctl_no_new_privs env \<noteq> 0 then
         (Exited 126,
          log (Ev_exit 126) (log (Ev_close Ruleset_fd)
            (log (Ev_perror ''landlock_sandboxer: prctl(NO_NEW_PRIVS)'')
              (log Ev_prctl_no_new_privs (log Ev_free s4)))))
       else if sys_landlock_restrict_self env \<noteq> 0 then
         (Exited 126,
          log (Ev_exit 126) (log (Ev_close Ruleset_fd)
            (log (Ev_perror ''landlock_sandboxer: restrict_self'')
              (log Ev_landlock_restrict_self
                ((log Ev_prctl_no_new_privs (log Ev_free s4))\<lparr>no_new_privs := True\<rparr>)))))
       else
         (Returned,
          log (Ev_close Ruleset_fd)
            ((log Ev_landlock_restrict_self
               ((log Ev_prctl_no_new_privs (log Ev_free s4))\<lparr>no_new_privs := True\<rparr>))
             \<lparr>enforced := Some (ruleset s4)\<rparr>)))"
    using assms by (simp add: apply_sandbox_def Let_def s4_def s3_def)
  show "fst (apply_sandbox env s) =
           (if sys_prctl_no_new_privs env = 0 \<and> sys_landlock_restrict_self env = 0
            then Returned else Exited 126)"
    by (simp add: unf)
  show "ruleset (snd (apply_sandbox env s)) = allowed_files env (path_dirs p)"
    by (simp add: unf rs log_def)
  show "no_new_privs (snd (apply_sandbox env s)) =
           (sys_prctl_no_new_privs env = 0 \<or> no_new_privs s)"
    by (simp add: unf nnp log_def)
  show "enforced (snd (apply_sandbox env s)) =
           (if sys_prctl_no_new_privs env = 0 \<and> sys_landlock_restrict_self env = 0
            then Some (allowed_files env (path_dirs p)) else enforced s)"
    by (simp add: unf enf rs log_def)
  have oc: "opendir_calls (trace s4) = opendir_calls (trace s) @ path_dirs p"
    unfolding s4_def by (simp add: opendir_calls_path_loop tr3 opendir_calls_append)
  have "trace (snd (apply_sandbox env s)) = trace s4 @ [Ev_free] @ activation env"
    by (simp add: unf activation_def log_def)
  then show "opendir_calls (trace (snd (apply_sandbox env s))) =
      opendir_calls (trace s) @ path_dirs p"
    by (simp add: opendir_calls_append oc activation_def)
  have "trace (snd (apply_sandbox env s)) =
             trace s @ [Ev_landlock_create_ruleset, Ev_getenv ''PATH'', Ev_strdup] @ es @
             [Ev_free] @ activation env"
    by (simp add: unf es tr3 activation_def log_def)
  with all show "\<exists>es. list_all (loop_event env (path_dirs p)) es \<and>
           trace (snd (apply_sandbox env s)) =
             trace s @ [Ev_landlock_create_ruleset, Ev_getenv ''PATH'', Ev_strdup] @ es @
             [Ev_free] @ activation env"
    by blast
qed

lemma apply_sandbox_cases [case_names create_fails no_path strdup_fails walk]:
  obtains "sys_landlock_create_ruleset env < 0"
  | "0 \<le> sys_landlock_create_ruleset env"
      and "sys_getenv_PATH env = None \<or> sys_getenv_PATH env = Some []"
  | p where "0 \<le> sys_landlock_create_ruleset env" and "sys_getenv_PATH env = Some p"
      and "p \<noteq> []" and "\<not> sys_strdup_ok env"
  | p where "0 \<le> sys_landlock_create_ruleset env" and "sys_getenv_PATH env = Some p"
      and "p \<noteq> []" and "sys_strdup_ok env"
  by (cases "sys_getenv_PATH env") fastforce+

lemma walk_call_activation: "e \<in> set (activation env) \<Longrightarrow> \<not> walk_call e"
  by (auto simp: activation_def split: if_splits)

lemma apply_sandbox_walk_calls:
  assumes "e \<in> set (trace (snd (apply_sandbox env (proc_start nnp))))" and "walk_call e"
  shows "\<exists>p. sys_getenv_PATH env = Some p \<and> p \<noteq> [] \<and> loop_event env (path_dirs p) e"
proof (cases rule: apply_sandbox_cases [of env])
  case create_fails
  with assms show ?thesis
    by (auto simp: apply_sandbox_create_fails proc_start_def)
next
  case no_path
  with assms show ?thesis
    by (auto simp: apply_sandbox_no_path proc_start_def)
next
  case (strdup_fails p)
  with assms show ?thesis
    by (auto simp: apply_sandbox_strdup_fails proc_start_def)
next
  case (walk p)
  from apply_sandbox_walk(5) [OF walk, of "proc_start nnp"]
  obtain es where all: "list_all (loop_event env (path_dirs p)) es"
    and tr: "trace (snd (apply_sandbox env (proc_start nnp))) =
       [Ev_landlock_create_ruleset, Ev_getenv ''PATH'', Ev_strdup] @ es @ [Ev_free] @ activation env"
    by (auto simp: proc_start_def)
  from assms have "e \<in> set es"
    unfolding tr using walk_call_activation [of e env] by auto
  with all have "loop_event env (path_dirs p) e"
    by (simp add: list_all_iff)
  with walk show ?thesis by simp
qed

lemma dir_entryI:
  "dir \<in> set dirs \<Longrightarrow> sys_opendir env dir = Some names \<Longrightarrow> d_name \<in> set names \<Longrightarrow>
   dir_entry env dirs (dir @ ''/'' @ d_name)"
  unfolding dir_entry_def by (intro bexI [of _ dir]) auto

lemma loop_event_path:
  assumes "loop_event env dirs e" and "e = Ev_stat p \<or> e = Ev_realpath p \<or> e = Ev_open p"
  shows "dir_entry env dirs p" and "length p < PATH_MAX"
proof -
  from assms obtain dir names d_name where "dir \<in> set dirs"
    and "sys_opendir env dir = Some names" and "d_name \<in> set names"
    and "length (dir @ ''/'' @ d_name) < PATH_MAX" and "p = dir @ ''/'' @ d_name"
    by (auto simp: loop_event_def dir_event_def split: option.splits)
  then show "dir_entry env dirs p" and "length p < PATH_MAX"
    using dir_entryI by simp_all
qed

lemma loop_event_open:
  "loop_event env dirs (Ev_open p) \<Longrightarrow> exec_regular env p \<and> resolves_undenied env p"
  by (auto simp: loop_event_def dir_event_def split: option.splits)

lemma allowed_files_sound:
  assumes "f \<in> allowed_files env dirs"
  shows "\<exists>p. dir_entry env dirs p \<and> exec_regular env p \<and> resolves_undenied env p \<and>
             sys_open env p = Some f"
proof -
  from assms obtain dir names d_name where "dir \<in> set dirs"
    and "sys_opendir env dir = Some names" and "d_name \<in> set names"
    and f: "f \<in> entry_files env (dir @ ''/'' @ d_name)"
    by (auto simp: allowed_files_def dir_files_def split: option.splits)
  then have "dir_entry env dirs (dir @ ''/'' @ d_name)"
    by (intro dir_entryI)
  moreover from f have "exec_regular env (dir @ ''/'' @ d_name)"
    and "resolves_undenied env (dir @ ''/'' @ d_name)"
    and "sys_open env (dir @ ''/'' @ d_name) = Some f"
    by (auto simp: entry_files_def split: if_splits option.splits)
  ultimately show ?thesis by blast
qed

lemma ruleset_apply_sandbox:
  "ruleset (snd (apply_sandbox env (proc_start nnp))) =
     (case sys_getenv_PATH env of
        None \<Rightarrow> {}
      | Some p \<Rightarrow>
          if 0 \<le> sys_landlock_create_ruleset env \<and> p \<noteq> [] \<and> sys_strdup_ok env
          then allowed_files env (path_dirs p) else {})"
proof (cases rule: apply_sandbox_cases [of env])
  case create_fails
  then show ?thesis
    by (simp add: apply_sandbox_create_fails proc_start_def split: option.split)
next
  case no_path
  then show ?thesis
    by (auto simp: apply_sandbox_no_path proc_start_def)
next
  case (strdup_fails p)
  then show ?thesis
    by (simp add: apply_sandbox_strdup_fails proc_start_def)
next
  case (walk p)
  then show ?thesis
    by (simp add: apply_sandbox_walk(2))
qed

lemmas model_defs =
  apply_sandbox_def proc_start_def log_def strtok_r_def path_body_def readdir_body_def
  snprintf_path_def PATH_MAX_def INT_MAX_def is_denied_loop_eq is_denied_def DENIED_SHELLS_def
  add_exec_rule_def S_ISREG_def S_IFMT_def S_IFREG_def S_IXUSR_def S_IXGRP_def S_IXOTH_def Let_def

lemma env0_run:
  "apply_sandbox env0 (proc_start False) =
     (Returned,
      \<lparr>ruleset = {11}, no_new_privs = True, enforced = Some {11},
       trace =
         [Ev_landlock_create_ruleset, Ev_getenv ''PATH'', Ev_strdup,
          Ev_opendir ''/bin'', Ev_readdir ''/bin'', Ev_stat ''/bin/.'',
          Ev_readdir ''/bin'', Ev_stat ''/bin/ls'', Ev_realpath ''/bin/ls'',
          Ev_open ''/bin/ls'', Ev_landlock_add_rule 11,
          Ev_close (Path_fd ''/bin/ls''), Ev_readdir ''/bin'',
          Ev_stat ''/bin/bash'', Ev_realpath ''/bin/bash'', Ev_readdir ''/bin'',
          Ev_stat ''/bin/readme'', Ev_readdir ''/bin'', Ev_closedir ''/bin'',
          Ev_opendir ''/nodir'', Ev_opendir ''/tmp/bin'', Ev_readdir ''/tmp/bin'',
          Ev_stat ''/tmp/bin/myshell'', Ev_realpath ''/tmp/bin/myshell'',
          Ev_readdir ''/tmp/bin'', Ev_stat ''/tmp/bin/ls'',
          Ev_realpath ''/tmp/bin/ls'', Ev_open ''/tmp/bin/ls'',
          Ev_landlock_add_rule 11, Ev_close (Path_fd ''/tmp/bin/ls''),
          Ev_readdir ''/tmp/bin'', Ev_stat ''/tmp/bin/gone'',
          Ev_readdir ''/tmp/bin'', Ev_closedir ''/tmp/bin'', Ev_free,
          Ev_prctl_no_new_privs, Ev_landlock_restrict_self, Ev_close Ruleset_fd]\<rparr>)"
  by (simp add: model_defs env0_def path_loop.simps)

lemma prctl_in_activation: "Ev_prctl_no_new_privs \<in> set (activation env)"
  by (simp add: activation_def)

lemma opendir_calls_apply_sandbox:
  "opendir_calls (trace (snd (apply_sandbox env (proc_start nnp)))) =
     (case sys_getenv_PATH env of
        None \<Rightarrow> []
      | Some p \<Rightarrow>
          if 0 \<le> sys_landlock_create_ruleset env \<and> p \<noteq> [] \<and> sys_strdup_ok env
          then path_dirs p else [])"
proof (cases rule: apply_sandbox_cases [of env])
  case create_fails
  then show ?thesis
    by (simp add: apply_sandbox_create_fails proc_start_def split: option.split)
next
  case no_path
  from apply_sandbox_no_path [OF this] no_path(2) show ?thesis
    by (auto simp: proc_start_def)
next
  case (strdup_fails p)
  from apply_sandbox_strdup_fails [OF this] strdup_fails show ?thesis
    by (simp add: proc_start_def)
next
  case (walk p)
  have "opendir_calls (trace (proc_start nnp)) = []" by (simp add: proc_start_def)
  with apply_sandbox_walk(6) [OF walk, of "proc_start nnp"] walk show ?thesis by simp
qed

section \<open>The claims\<close>

text \<open>
  Claim C2. \<open>is_denied\<close> returns true (1) exactly when the literal path or the resolved
  path is string-equal to an entry of \<open>DENIED_SHELLS\<close>, and false (0) otherwise; so it
  is true for every entry whatever it resolves to, and a prefix or a differently cased
  spelling of an entry is not matched.
\<close>

theorem is_denied_iff_member:
  "is_denied path resolved =
     (if path \<in> set DENIED_SHELLS \<or> resolved \<in> set DENIED_SHELLS then 1 else 0)"
  unfolding is_denied_def by (rule is_denied_loop_eq)

theorem is_denied_iff_member_witness:
  "is_denied ''/bin/bash'' ''/bin/bash'' = 1 \<and>
   is_denied ''/tmp/bin/myshell'' ''/usr/bin/zsh'' = 1 \<and>
   is_denied ''/bin/BASH'' ''/bin/Bash'' = 0 \<and>
   is_denied ''/bin/bas'' ''/bin/bash2'' = 0"
  using is_denied_iff_member [of "''/bin/bash''" "''/bin/bash''"]
    is_denied_iff_member [of "''/tmp/bin/myshell''" "''/usr/bin/zsh''"]
    is_denied_iff_member [of "''/bin/BASH''" "''/bin/Bash''"]
    is_denied_iff_member [of "''/bin/bas''" "''/bin/bash2''"]
  by (simp add: DENIED_SHELLS_def)

text \<open>
  Claim C1. Whatever \<open>PATH\<close> and the file system are, every path \<open>add_exec_rule\<close> is
  called on (its \<open>open\<close>) is a direct entry of a \<open>PATH\<close> directory, names a regular
  file with an execute bit, resolves, and is not denied by \<open>is_denied\<close>; and every
  file in the final ruleset is the file behind such a path.
\<close>

theorem apply_sandbox_rules_subset:
  "(Ev_open p \<in> set (trace (snd (apply_sandbox env (proc_start nnp)))) \<longrightarrow>
      (\<exists>path. sys_getenv_PATH env = Some path \<and> dir_entry env (path_dirs path) p \<and>
         exec_regular env p \<and> resolves_undenied env p)) \<and>
   (f \<in> ruleset (snd (apply_sandbox env (proc_start nnp))) \<longrightarrow>
      (\<exists>path q. sys_getenv_PATH env = Some path \<and> dir_entry env (path_dirs path) q \<and>
         exec_regular env q \<and> resolves_undenied env q \<and> sys_open env q = Some f))"
proof (intro conjI impI)
  assume "Ev_open p \<in> set (trace (snd (apply_sandbox env (proc_start nnp))))"
  from apply_sandbox_walk_calls [OF this]
  obtain path where "sys_getenv_PATH env = Some path"
    and "loop_event env (path_dirs path) (Ev_open p)"
    by auto
  then show "\<exists>path. sys_getenv_PATH env = Some path \<and> dir_entry env (path_dirs path) p \<and>
         exec_regular env p \<and> resolves_undenied env p"
    using loop_event_path(1) [of env "path_dirs path" "Ev_open p" p] loop_event_open
    by blast
next
  assume "f \<in> ruleset (snd (apply_sandbox env (proc_start nnp)))"
  then obtain path where "sys_getenv_PATH env = Some path"
    and "f \<in> allowed_files env (path_dirs path)"
    unfolding ruleset_apply_sandbox by (auto split: option.splits if_splits)
  then show "\<exists>path q. sys_getenv_PATH env = Some path \<and> dir_entry env (path_dirs path) q \<and>
         exec_regular env q \<and> resolves_undenied env q \<and> sys_open env q = Some f"
    using allowed_files_sound by blast
qed

theorem apply_sandbox_rules_subset_witness:
  "Ev_open ''/bin/ls'' \<in> set (trace (snd (apply_sandbox env0 (proc_start False)))) \<and>
   11 \<in> ruleset (snd (apply_sandbox env0 (proc_start False))) \<and>
   (\<exists>path. sys_getenv_PATH env0 = Some path \<and> dir_entry env0 (path_dirs path) ''/bin/ls'' \<and>
      exec_regular env0 ''/bin/ls'' \<and> resolves_undenied env0 ''/bin/ls'') \<and>
   (\<exists>path q. sys_getenv_PATH env0 = Some path \<and> dir_entry env0 (path_dirs path) q \<and>
      exec_regular env0 q \<and> resolves_undenied env0 q \<and> sys_open env0 q = Some 11)"
proof -
  have a: "Ev_open ''/bin/ls'' \<in> set (trace (snd (apply_sandbox env0 (proc_start False))))"
    by (simp add: env0_run)
  have b: "11 \<in> ruleset (snd (apply_sandbox env0 (proc_start False)))"
    by (simp add: env0_run)
  from a b apply_sandbox_rules_subset [of "''/bin/ls''" env0 False 11]
  show ?thesis by blast
qed

text \<open>
  Claim C3. When \<open>PATH\<close> is unset or empty the process exits with status 126, and
  the run consists of the creation of the ruleset and, if that succeeded, \<open>getenv\<close>,
  the release of the ruleset, the diagnostic and \<open>_exit\<close>: no directory is opened or
  read, no file is examined and no rule is added.
\<close>

theorem apply_sandbox_empty_path:
  assumes "sys_getenv_PATH env = None \<or> sys_getenv_PATH env = Some []"
  shows "fst (apply_sandbox env (proc_start nnp)) = Exited 126 \<and>
         trace (snd (apply_sandbox env (proc_start nnp))) =
           (if sys_landlock_create_ruleset env < 0
            then [Ev_landlock_create_ruleset,
                  Ev_perror ''landlock_sandboxer: create_ruleset'', Ev_exit 126]
            else [Ev_landlock_create_ruleset, Ev_getenv ''PATH'', Ev_close Ruleset_fd,
                  Ev_fprintf_stderr ''landlock_sandboxer: PATH is empty\<newline>'', Ev_exit 126]) \<and>
         \<not> list_ex walk_call (trace (snd (apply_sandbox env (proc_start nnp)))) \<and>
         ruleset (snd (apply_sandbox env (proc_start nnp))) = {}"
proof (cases "sys_landlock_create_ruleset env < 0")
  case True
  then show ?thesis
    by (simp add: apply_sandbox_create_fails proc_start_def)
next
  case False
  then have "0 \<le> sys_landlock_create_ruleset env" by simp
  from apply_sandbox_no_path [OF this assms] False show ?thesis
    by (simp add: proc_start_def)
qed

theorem apply_sandbox_empty_path_witness:
  "sys_getenv_PATH (env0\<lparr>sys_getenv_PATH := Some []\<rparr>) = Some [] \<and>
   apply_sandbox (env0\<lparr>sys_getenv_PATH := Some []\<rparr>) (proc_start False) =
     (Exited 126,
      \<lparr>ruleset = {}, no_new_privs = False, enforced = None,
       trace = [Ev_landlock_create_ruleset, Ev_getenv ''PATH'', Ev_close Ruleset_fd,
                Ev_fprintf_stderr ''landlock_sandboxer: PATH is empty\<newline>'', Ev_exit 126]\<rparr>)"
proof -
  have h: "sys_getenv_PATH (env0\<lparr>sys_getenv_PATH := Some []\<rparr>) = None \<or>
           sys_getenv_PATH (env0\<lparr>sys_getenv_PATH := Some []\<rparr>) = Some []"
    by simp
  have "no_new_privs (snd (apply_sandbox (env0\<lparr>sys_getenv_PATH := Some []\<rparr>) (proc_start False)))
          = False"
    and "enforced (snd (apply_sandbox (env0\<lparr>sys_getenv_PATH := Some []\<rparr>) (proc_start False)))
          = None"
    by (simp_all add: model_defs env0_def)
  with apply_sandbox_empty_path [OF h, of False] show ?thesis
    by (cases "apply_sandbox (env0\<lparr>sys_getenv_PATH := Some []\<rparr>) (proc_start False)")
       (auto simp: env0_def)
qed

text \<open>
  Claim C6. When the creation of the ruleset fails the process exits with status 126
  after the diagnostic; the run has no other call, so no rule is added and \<open>PATH\<close> is
  neither read nor walked.
\<close>

theorem apply_sandbox_unsupported:
  assumes "sys_landlock_create_ruleset env < 0"
  shows "apply_sandbox env (proc_start nnp) =
           (Exited 126,
            (proc_start nnp)
              \<lparr>trace := [Ev_landlock_create_ruleset,
                          Ev_perror ''landlock_sandboxer: create_ruleset'', Ev_exit 126]\<rparr>) \<and>
         \<not> list_ex walk_call (trace (snd (apply_sandbox env (proc_start nnp)))) \<and>
         Ev_getenv ''PATH'' \<notin> set (trace (snd (apply_sandbox env (proc_start nnp)))) \<and>
         ruleset (snd (apply_sandbox env (proc_start nnp))) = {}"
  using assms by (simp add: apply_sandbox_create_fails proc_start_def)

theorem apply_sandbox_unsupported_witness:
  "sys_landlock_create_ruleset (env0\<lparr>sys_landlock_create_ruleset := -1\<rparr>) < 0 \<and>
   apply_sandbox (env0\<lparr>sys_landlock_create_ruleset := -1\<rparr>) (proc_start False) =
     (Exited 126,
      \<lparr>ruleset = {}, no_new_privs = False, enforced = None,
       trace = [Ev_landlock_create_ruleset,
                Ev_perror ''landlock_sandboxer: create_ruleset'', Ev_exit 126]\<rparr>)"
proof -
  have h: "sys_landlock_create_ruleset (env0\<lparr>sys_landlock_create_ruleset := -1\<rparr>) < 0"
    by simp
  from apply_sandbox_unsupported [OF h, of False] h show ?thesis
    by (simp add: proc_start_def)
qed

text \<open>
  Claim C5 (the allocation-failure path). With a ruleset created and a non-empty
  \<open>PATH\<close>, a failing \<open>strdup\<close> releases the ruleset and exits with status 126
  without \<open>perror\<close> or \<open>fprintf\<close>: no diagnostic is written.
\<close>

theorem apply_sandbox_strdup_failure_silent:
  "apply_sandbox (env0\<lparr>sys_strdup_ok := False\<rparr>) (proc_start False) =
     (Exited 126,
      \<lparr>ruleset = {}, no_new_privs = False, enforced = None,
       trace = [Ev_landlock_create_ruleset, Ev_getenv ''PATH'', Ev_strdup,
                Ev_close Ruleset_fd, Ev_exit 126]\<rparr>)"
  by (simp add: model_defs env0_def)

text \<open>
  Claim C4. Once the ruleset exists, \<open>PATH\<close> is not empty and its copy is allocated,
  the run reaches the activation step (\<open>prctl\<close>) whatever \<open>opendir\<close>, \<open>stat\<close>,
  \<open>realpath\<close>, \<open>open\<close> and \<open>landlock_add_rule\<close> answer, and its outcome depends on
  \<open>prctl\<close> and \<open>landlock_restrict_self\<close> alone. Every \<open>PATH\<close> directory is tried, in
  order, and the ruleset ends up holding exactly the files of the candidates that pass
  every check: a failure drops the one directory or candidate it concerns and nothing
  else.
\<close>

theorem apply_sandbox_reaches_activation:
  assumes "0 \<le> sys_landlock_create_ruleset env" and "sys_getenv_PATH env = Some p"
    and "p \<noteq> []" and "sys_strdup_ok env"
  shows "Ev_prctl_no_new_privs \<in> set (trace (snd (apply_sandbox env (proc_start nnp)))) \<and>
         fst (apply_sandbox env (proc_start nnp)) =
           (if sys_prctl_no_new_privs env = 0 \<and> sys_landlock_restrict_self env = 0
            then Returned else Exited 126) \<and>
         opendir_calls (trace (snd (apply_sandbox env (proc_start nnp)))) = path_dirs p \<and>
         ruleset (snd (apply_sandbox env (proc_start nnp))) = allowed_files env (path_dirs p)"
proof -
  note w = apply_sandbox_walk [OF assms, of "proc_start nnp"]
  from w(5) obtain es where
    "trace (snd (apply_sandbox env (proc_start nnp))) =
       trace (proc_start nnp) @ [Ev_landlock_create_ruleset, Ev_getenv ''PATH'', Ev_strdup] @
       es @ [Ev_free] @ activation env"
    by blast
  then have c1: "Ev_prctl_no_new_privs \<in> set (trace (snd (apply_sandbox env (proc_start nnp))))"
    by (simp add: prctl_in_activation)
  have "opendir_calls (trace (proc_start nnp)) = []"
    by (simp add: proc_start_def)
  with w(6) have c3: "opendir_calls (trace (snd (apply_sandbox env (proc_start nnp)))) = path_dirs p"
    by simp
  show ?thesis
    by (intro conjI c1 c3 w(1) w(2))
qed

theorem apply_sandbox_reaches_activation_witness:
  "0 \<le> sys_landlock_create_ruleset env0 \<and>
   sys_getenv_PATH env0 = Some '':/bin::/nodir:/tmp/bin'' \<and> sys_strdup_ok env0 \<and>
   Ev_prctl_no_new_privs \<in> set (trace (snd (apply_sandbox env0 (proc_start False)))) \<and>
   fst (apply_sandbox env0 (proc_start False)) = Returned \<and>
   opendir_calls (trace (snd (apply_sandbox env0 (proc_start False)))) =
     [''/bin'', ''/nodir'', ''/tmp/bin''] \<and>
   ruleset (snd (apply_sandbox env0 (proc_start False))) = {11}"
proof -
  have h1: "0 \<le> sys_landlock_create_ruleset env0"
    and h2: "sys_getenv_PATH env0 = Some '':/bin::/nodir:/tmp/bin''"
    and h3: "'':/bin::/nodir:/tmp/bin'' \<noteq> []"
    and h4: "sys_strdup_ok env0"
    by (simp_all add: env0_def)
  have pd: "path_dirs '':/bin::/nodir:/tmp/bin'' = [''/bin'', ''/nodir'', ''/tmp/bin'']"
    by (simp add: path_dirs_def)
  have h5: "sys_prctl_no_new_privs env0 = 0 \<and> sys_landlock_restrict_self env0 = 0"
    by (simp add: env0_def)
  note t = apply_sandbox_reaches_activation [OF h1 h2 h3 h4, of False]
  have c1: "Ev_prctl_no_new_privs \<in> set (trace (snd (apply_sandbox env0 (proc_start False))))"
    using t by (rule conjunct1)
  have c2: "fst (apply_sandbox env0 (proc_start False)) = Returned"
    using conjunct1 [OF conjunct2 [OF t]] h5 by simp
  have c3: "opendir_calls (trace (snd (apply_sandbox env0 (proc_start False)))) =
     [''/bin'', ''/nodir'', ''/tmp/bin'']"
    using conjunct1 [OF conjunct2 [OF conjunct2 [OF t]]] unfolding pd .
  have c4: "ruleset (snd (apply_sandbox env0 (proc_start False))) = {11}"
    by (simp add: env0_run)
  show ?thesis
    by (intro conjI h1 h2 h4 c1 c2 c3 c4)
qed

text \<open>
  Claim C7. In every run \<open>landlock_restrict_self\<close> is called at most once, right after
  a \<open>prctl(PR_SET_NO_NEW_PRIVS)\<close> that succeeded. A failing \<open>prctl\<close> and a failing
  \<open>landlock_restrict_self\<close> each end the run with status 126 and the process
  unrestricted. The constructor returns only after both succeeded, and then the
  process has \<open>no_new_privs\<close> set and is restricted to the ruleset that was built;
  every other run exits with status 126, unrestricted.
\<close>

theorem lock_before_commit:
  "(Ev_landlock_restrict_self \<in> set (trace (snd (apply_sandbox env (proc_start nnp)))) \<longrightarrow>
      sys_prctl_no_new_privs env = 0 \<and>
      (\<exists>pre post.
         trace (snd (apply_sandbox env (proc_start nnp))) =
           pre @ [Ev_prctl_no_new_privs, Ev_landlock_restrict_self] @ post \<and>
         Ev_landlock_restrict_self \<notin> set pre \<and> Ev_landlock_restrict_self \<notin> set post)) \<and>
   (sys_prctl_no_new_privs env \<noteq> 0 \<or> sys_landlock_restrict_self env \<noteq> 0 \<longrightarrow>
      fst (apply_sandbox env (proc_start nnp)) = Exited 126 \<and>
      enforced (snd (apply_sandbox env (proc_start nnp))) = None) \<and>
   (fst (apply_sandbox env (proc_start nnp)) = Returned \<longrightarrow>
      sys_prctl_no_new_privs env = 0 \<and> sys_landlock_restrict_self env = 0 \<and>
      Ev_landlock_restrict_self \<in> set (trace (snd (apply_sandbox env (proc_start nnp)))) \<and>
      no_new_privs (snd (apply_sandbox env (proc_start nnp))) \<and>
      enforced (snd (apply_sandbox env (proc_start nnp))) =
        Some (ruleset (snd (apply_sandbox env (proc_start nnp))))) \<and>
   (fst (apply_sandbox env (proc_start nnp)) \<noteq> Returned \<longrightarrow>
      fst (apply_sandbox env (proc_start nnp)) = Exited 126 \<and>
      enforced (snd (apply_sandbox env (proc_start nnp))) = None)"
proof (cases rule: apply_sandbox_cases [of env])
  case create_fails
  then show ?thesis
    by (simp add: apply_sandbox_create_fails proc_start_def)
next
  case no_path
  from apply_sandbox_no_path [OF this] show ?thesis
    by (simp add: proc_start_def)
next
  case (strdup_fails p)
  from apply_sandbox_strdup_fails [OF this] show ?thesis
    by (simp add: proc_start_def)
next
  case (walk p)
  let ?r = "apply_sandbox env (proc_start nnp)"
  note w = apply_sandbox_walk [OF walk, of "proc_start nnp"]
  from w(5) obtain es where all: "list_all (loop_event env (path_dirs p)) es"
    and tr: "trace (snd ?r) =
       ([Ev_landlock_create_ruleset, Ev_getenv ''PATH'', Ev_strdup] @ es @ [Ev_free]) @
       activation env"
    by (auto simp: proc_start_def)
  have no: "Ev_landlock_restrict_self \<notin> set es"
  proof
    assume "Ev_landlock_restrict_self \<in> set es"
    with all have "loop_event env (path_dirs p) Ev_landlock_restrict_self"
      by (simp add: list_all_iff)
    then show False by (auto dest: loop_event_walk_call)
  qed
  have enf: "enforced (proc_start nnp) = None"
    by (simp add: proc_start_def)
  have order: "Ev_landlock_restrict_self \<in> set (trace (snd ?r)) \<longrightarrow>
      sys_prctl_no_new_privs env = 0 \<and>
      (\<exists>pre post.
         trace (snd ?r) = pre @ [Ev_prctl_no_new_privs, Ev_landlock_restrict_self] @ post \<and>
         Ev_landlock_restrict_self \<notin> set pre \<and> Ev_landlock_restrict_self \<notin> set post)"
  proof
    assume "Ev_landlock_restrict_self \<in> set (trace (snd ?r))"
    then have "Ev_landlock_restrict_self \<in> set (activation env)"
      unfolding tr using no by simp
    then have p0: "sys_prctl_no_new_privs env = 0"
      by (auto simp: activation_def split: if_splits)
    then obtain post where act: "activation env =
        [Ev_prctl_no_new_privs, Ev_landlock_restrict_self] @ post"
      and post: "Ev_landlock_restrict_self \<notin> set post"
      by (cases "sys_landlock_restrict_self env = 0") (auto simp: activation_def)
    have "trace (snd ?r) =
        ([Ev_landlock_create_ruleset, Ev_getenv ''PATH'', Ev_strdup] @ es @ [Ev_free]) @
        [Ev_prctl_no_new_privs, Ev_landlock_restrict_self] @ post"
      unfolding tr act ..
    moreover have "Ev_landlock_restrict_self \<notin>
        set ([Ev_landlock_create_ruleset, Ev_getenv ''PATH'', Ev_strdup] @ es @ [Ev_free])"
      using no by simp
    ultimately show "sys_prctl_no_new_privs env = 0 \<and>
      (\<exists>pre post.
         trace (snd ?r) = pre @ [Ev_prctl_no_new_privs, Ev_landlock_restrict_self] @ post \<and>
         Ev_landlock_restrict_self \<notin> set pre \<and> Ev_landlock_restrict_self \<notin> set post)"
      using p0 post by blast
  qed
  have called: "sys_prctl_no_new_privs env = 0 \<Longrightarrow> sys_landlock_restrict_self env = 0 \<Longrightarrow>
      Ev_landlock_restrict_self \<in> set (trace (snd ?r))"
    unfolding tr by (simp add: activation_def)
  have fails: "sys_prctl_no_new_privs env \<noteq> 0 \<or> sys_landlock_restrict_self env \<noteq> 0 \<longrightarrow>
      fst ?r = Exited 126 \<and> enforced (snd ?r) = None"
    using w(1) w(4) enf by auto
  have returned: "fst ?r = Returned \<longrightarrow>
      sys_prctl_no_new_privs env = 0 \<and> sys_landlock_restrict_self env = 0 \<and>
      Ev_landlock_restrict_self \<in> set (trace (snd ?r)) \<and>
      no_new_privs (snd ?r) \<and> enforced (snd ?r) = Some (ruleset (snd ?r))"
  proof
    assume "fst ?r = Returned"
    with w(1) have ok: "sys_prctl_no_new_privs env = 0 \<and> sys_landlock_restrict_self env = 0"
      by (simp split: if_splits)
    with called w(2) w(3) w(4)
    show "sys_prctl_no_new_privs env = 0 \<and> sys_landlock_restrict_self env = 0 \<and>
      Ev_landlock_restrict_self \<in> set (trace (snd ?r)) \<and>
      no_new_privs (snd ?r) \<and> enforced (snd ?r) = Some (ruleset (snd ?r))"
      by simp
  qed
  have exited: "fst ?r \<noteq> Returned \<longrightarrow> fst ?r = Exited 126 \<and> enforced (snd ?r) = None"
    using w(1) w(4) enf by (auto split: if_splits)
  from order fails returned exited show ?thesis
    by blast
qed

theorem lock_before_commit_witness:
  "Ev_landlock_restrict_self \<in> set (trace (snd (apply_sandbox env0 (proc_start False)))) \<and>
   fst (apply_sandbox env0 (proc_start False)) = Returned \<and>
   sys_prctl_no_new_privs env0 = 0 \<and>
   (\<exists>pre post.
      trace (snd (apply_sandbox env0 (proc_start False))) =
        pre @ [Ev_prctl_no_new_privs, Ev_landlock_restrict_self] @ post \<and>
      Ev_landlock_restrict_self \<notin> set pre \<and> Ev_landlock_restrict_self \<notin> set post) \<and>
   no_new_privs (snd (apply_sandbox env0 (proc_start False))) \<and>
   enforced (snd (apply_sandbox env0 (proc_start False))) = Some {11} \<and>
   sys_prctl_no_new_privs (env0\<lparr>sys_prctl_no_new_privs := -1\<rparr>) \<noteq> 0 \<and>
   fst (apply_sandbox (env0\<lparr>sys_prctl_no_new_privs := -1\<rparr>) (proc_start False)) = Exited 126 \<and>
   enforced (snd (apply_sandbox (env0\<lparr>sys_prctl_no_new_privs := -1\<rparr>) (proc_start False))) = None"
proof -
  have a: "Ev_landlock_restrict_self \<in> set (trace (snd (apply_sandbox env0 (proc_start False))))"
    and b: "fst (apply_sandbox env0 (proc_start False)) = Returned"
    and c: "ruleset (snd (apply_sandbox env0 (proc_start False))) = {11}"
    by (simp_all add: env0_run)
  have d: "sys_prctl_no_new_privs (env0\<lparr>sys_prctl_no_new_privs := -1\<rparr>) \<noteq> 0"
    by simp
  note run = lock_before_commit [of env0 False]
  from run a have o: "sys_prctl_no_new_privs env0 = 0 \<and>
   (\<exists>pre post.
      trace (snd (apply_sandbox env0 (proc_start False))) =
        pre @ [Ev_prctl_no_new_privs, Ev_landlock_restrict_self] @ post \<and>
      Ev_landlock_restrict_self \<notin> set pre \<and> Ev_landlock_restrict_self \<notin> set post)"
    by blast
  from run b have "no_new_privs (snd (apply_sandbox env0 (proc_start False))) \<and>
      enforced (snd (apply_sandbox env0 (proc_start False))) =
        Some (ruleset (snd (apply_sandbox env0 (proc_start False))))"
    by blast
  then have r: "no_new_privs (snd (apply_sandbox env0 (proc_start False))) \<and>
      enforced (snd (apply_sandbox env0 (proc_start False))) = Some {11}"
    unfolding c .
  note failed = lock_before_commit [of "env0\<lparr>sys_prctl_no_new_privs := -1\<rparr>" False]
  from failed d have x:
    "fst (apply_sandbox (env0\<lparr>sys_prctl_no_new_privs := -1\<rparr>) (proc_start False)) = Exited 126 \<and>
     enforced (snd (apply_sandbox (env0\<lparr>sys_prctl_no_new_privs := -1\<rparr>) (proc_start False))) = None"
    by blast
  show ?thesis
    by (intro conjI a b conjunct1 [OF o] conjunct2 [OF o] conjunct1 [OF r] conjunct2 [OF r]
        d conjunct1 [OF x] conjunct2 [OF x])
qed

text \<open>
  Claim C9. A directory entry whose path (directory, separator, name) needs
  \<open>PATH_MAX\<close> characters or more is skipped by the loop body with no call at all. The
  buffer \<open>snprintf\<close> fills never holds \<open>PATH_MAX\<close> characters or more, and holds the
  whole path when that is shorter. Every path handed to \<open>stat\<close>, \<open>realpath\<close> or
  \<open>open\<close> in a run is shorter than \<open>PATH_MAX\<close> and is the untruncated path of an
  entry of a \<open>PATH\<close> directory.
\<close>

theorem long_candidate_skipped:
  "(PATH_MAX \<le> length dir + 1 + length d_name \<longrightarrow> readdir_body env dir d_name s = s) \<and>
   length (snd (snprintf_path PATH_MAX dir d_name)) < PATH_MAX \<and>
   (length dir + 1 + length d_name < PATH_MAX \<longrightarrow>
      snd (snprintf_path PATH_MAX dir d_name) = dir @ ''/'' @ d_name) \<and>
   (e \<in> set (trace (snd (apply_sandbox env (proc_start nnp)))) \<and>
    (e = Ev_stat p \<or> e = Ev_realpath p \<or> e = Ev_open p) \<longrightarrow>
      length p < PATH_MAX \<and>
      (\<exists>path. sys_getenv_PATH env = Some path \<and> dir_entry env (path_dirs path) p))"
proof (intro conjI impI)
  assume "PATH_MAX \<le> length dir + 1 + length d_name"
  then show "readdir_body env dir d_name s = s"
    by (intro readdir_body_too_long) simp
next
  show "length (snd (snprintf_path PATH_MAX dir d_name)) < PATH_MAX"
    by (simp add: snprintf_path_def Let_def PATH_MAX_def)
next
  assume "length dir + 1 + length d_name < PATH_MAX"
  then show "snd (snprintf_path PATH_MAX dir d_name) = dir @ ''/'' @ d_name"
    by (simp add: snprintf_path_fits)
next
  assume a: "e \<in> set (trace (snd (apply_sandbox env (proc_start nnp)))) \<and>
    (e = Ev_stat p \<or> e = Ev_realpath p \<or> e = Ev_open p)"
  then have "walk_call e" by auto
  with a apply_sandbox_walk_calls [of e env nnp]
  obtain path where path: "sys_getenv_PATH env = Some path"
    and ev: "loop_event env (path_dirs path) e"
    by blast
  from loop_event_path [OF ev] a show "length p < PATH_MAX"
    by blast
  from loop_event_path [OF ev] a path
  show "\<exists>path. sys_getenv_PATH env = Some path \<and> dir_entry env (path_dirs path) p"
    by blast
qed

theorem long_candidate_skipped_witness:
  "PATH_MAX \<le> length ''/bin'' + 1 + length (replicate 4095 (CHR ''a'')) \<and>
   readdir_body env0 ''/bin'' (replicate 4095 (CHR ''a'')) (proc_start False) = proc_start False \<and>
   (Ev_stat ''/bin/ls'' \<in> set (trace (snd (apply_sandbox env0 (proc_start False)))) \<and>
    (Ev_stat ''/bin/ls'' = Ev_stat ''/bin/ls'' \<or> Ev_stat ''/bin/ls'' = Ev_realpath ''/bin/ls'' \<or>
     Ev_stat ''/bin/ls'' = Ev_open ''/bin/ls'')) \<and>
   (length ''/bin/ls'' < PATH_MAX \<and>
    (\<exists>path. sys_getenv_PATH env0 = Some path \<and> dir_entry env0 (path_dirs path) ''/bin/ls''))"
proof -
  have h1: "PATH_MAX \<le> length ''/bin'' + 1 + length (replicate 4095 (CHR ''a''))"
    by (simp add: PATH_MAX_def)
  have h2: "Ev_stat ''/bin/ls'' \<in> set (trace (snd (apply_sandbox env0 (proc_start False)))) \<and>
    (Ev_stat ''/bin/ls'' = Ev_stat ''/bin/ls'' \<or> Ev_stat ''/bin/ls'' = Ev_realpath ''/bin/ls'' \<or>
     Ev_stat ''/bin/ls'' = Ev_open ''/bin/ls'')"
    by (simp add: env0_run)
  note t = long_candidate_skipped [where dir = "''/bin''" and d_name = "replicate 4095 (CHR ''a'')"
      and env = env0 and s = "proc_start False" and e = "Ev_stat ''/bin/ls''" and nnp = False
      and p = "''/bin/ls''"]
  note c1 = mp [OF conjunct1 [OF t] h1]
  note c2 = mp [OF conjunct2 [OF conjunct2 [OF conjunct2 [OF t]]] h2]
  show ?thesis
    by (rule conjI [OF h1 conjI [OF c1 conjI [OF h2 c2]]])
qed

text \<open>
  Claim C10. The directories a run opens are exactly the non-empty components of
  \<open>PATH\<close>, in order: the empty components a leading, trailing or doubled colon
  produces are never passed to \<open>opendir\<close> and contribute no file to the ruleset. A
  token \<open>strtok_r\<close> returns is never empty and holds no colon.
\<close>

theorem empty_components_ignored:
  "opendir_calls (trace (snd (apply_sandbox env (proc_start nnp)))) =
     (case sys_getenv_PATH env of
        None \<Rightarrow> []
      | Some p \<Rightarrow>
          if 0 \<le> sys_landlock_create_ruleset env \<and> p \<noteq> [] \<and> sys_strdup_ok env
          then filter (\<lambda>t. t \<noteq> []) (split_colon p) else []) \<and>
   [] \<notin> set (opendir_calls (trace (snd (apply_sandbox env (proc_start nnp))))) \<and>
   ruleset (snd (apply_sandbox env (proc_start nnp))) =
     (case sys_getenv_PATH env of
        None \<Rightarrow> {}
      | Some p \<Rightarrow>
          if 0 \<le> sys_landlock_create_ruleset env \<and> p \<noteq> [] \<and> sys_strdup_ok env
          then allowed_files env (filter (\<lambda>t. t \<noteq> []) (split_colon p)) else {}) \<and>
   (strtok_r save = Some (dir, save') \<longrightarrow> dir \<noteq> [] \<and> CHR '':'' \<notin> set dir)"
proof (intro conjI impI)
  show oc: "opendir_calls (trace (snd (apply_sandbox env (proc_start nnp)))) =
     (case sys_getenv_PATH env of
        None \<Rightarrow> []
      | Some p \<Rightarrow>
          if 0 \<le> sys_landlock_create_ruleset env \<and> p \<noteq> [] \<and> sys_strdup_ok env
          then filter (\<lambda>t. t \<noteq> []) (split_colon p) else [])"
    unfolding opendir_calls_apply_sandbox path_dirs_def ..
  show "[] \<notin> set (opendir_calls (trace (snd (apply_sandbox env (proc_start nnp)))))"
    unfolding oc by (simp split: option.split)
  show "ruleset (snd (apply_sandbox env (proc_start nnp))) =
     (case sys_getenv_PATH env of
        None \<Rightarrow> {}
      | Some p \<Rightarrow>
          if 0 \<le> sys_landlock_create_ruleset env \<and> p \<noteq> [] \<and> sys_strdup_ok env
          then allowed_files env (filter (\<lambda>t. t \<noteq> []) (split_colon p)) else {})"
    unfolding ruleset_apply_sandbox path_dirs_def ..
next
  assume "strtok_r save = Some (dir, save')"
  then show "dir \<noteq> []" and "CHR '':'' \<notin> set dir"
    by (rule strtok_r_Some(2), rule strtok_r_Some(3))
qed

theorem empty_components_ignored_witness:
  "sys_getenv_PATH env0 = Some '':/bin::/nodir:/tmp/bin'' \<and>
   opendir_calls (trace (snd (apply_sandbox env0 (proc_start False)))) =
     [''/bin'', ''/nodir'', ''/tmp/bin''] \<and>
   [] \<notin> set (opendir_calls (trace (snd (apply_sandbox env0 (proc_start False))))) \<and>
   strtok_r ''::a:b'' = Some (''a'', ''b'') \<and> (''a'' \<noteq> [] \<and> CHR '':'' \<notin> set ''a'')"
proof -
  have h1: "sys_getenv_PATH env0 = Some '':/bin::/nodir:/tmp/bin''"
    by (simp add: env0_def)
  have h2: "strtok_r ''::a:b'' = Some (''a'', ''b'')"
    by (simp add: strtok_r_def)
  have sc: "filter (\<lambda>t. t \<noteq> []) (split_colon '':/bin::/nodir:/tmp/bin'') =
      [''/bin'', ''/nodir'', ''/tmp/bin'']"
    by simp
  have ok: "0 \<le> sys_landlock_create_ruleset env0 \<and> sys_strdup_ok env0"
    by (simp add: env0_def)
  note t = empty_components_ignored [where env = env0 and nnp = False and save = "''::a:b''"
      and dir = "''a''" and save' = "''b''"]
  have c1: "opendir_calls (trace (snd (apply_sandbox env0 (proc_start False)))) =
     [''/bin'', ''/nodir'', ''/tmp/bin'']"
    using conjunct1 [OF t] ok unfolding h1 by (simp add: sc)
  note c2 = conjunct1 [OF conjunct2 [OF t]]
  note c3 = mp [OF conjunct2 [OF conjunct2 [OF conjunct2 [OF t]]] h2]
  show ?thesis
    by (rule conjI [OF h1 conjI [OF c1 conjI [OF c2 conjI [OF h2 c3]]]])
qed

end
